theory Spec2Isabelle
  imports Complex_Main "HOL-Library.Log_Nat"
begin

section \<open>Smart Vehicle IDS: a shallow embedding of \<open>app.py\<close>\<close>

text \<open>
  The program simulates one vehicle: every request for telemetry produces a snapshot
  (\<open>generate_telemetry\<close>), runs three detection rules on it (\<open>evaluate_rules\<close>) and
  folds the alerts into process-wide analytics (\<open>update_analytics\<close>).

  Conventions of the embedding:
  \<^item> Python dictionaries with a fixed set of keys (snapshot, alert, CAN frame, heatmap
    cell, timeline entry) are records; dictionaries with computed keys (\<open>ecu_health\<close>,
    the three \<open>Counter\<close>s) are maps.
  \<^item> The module-level variables \<open>FORCE_ATTACK\<close>, \<open>ANALYTICS\<close> and
    \<open>LAST_SNAPSHOT\<close> are the fields of an explicit state that every operation takes and
    returns.
  \<^item> Every call into the \<open>random\<close> module is an explicit input: the record
    \<open>draws\<close> has one field per call site and holds the value that the call returned.
    The clock (\<open>datetime.utcnow().strftime\<close>) and the outcome of the log write are
    inputs in the same way (record \<open>env\<close>).
  \<^item> Python \<open>int\<close> is \<open>int\<close>. A Python \<open>float\<close> is an IEEE 754 double; it is
    represented by the rational number it denotes, and every float literal (\<open>lit\<close>) and
    every float operation is rounded to the nearest double (\<open>fl\<close>), ties to even.
\<close>

subsection \<open>Rendering numbers as text\<close>

text \<open>\<open>str(n)\<close> for a Python integer: decimal digits, a minus sign for negatives.\<close>

fun str_nat :: "nat \<Rightarrow> string" where
  "str_nat n =
     (if n < 10 then [''0123456789'' ! n]
      else str_nat (n div 10) @ [''0123456789'' ! (n mod 10)])"

declare str_nat.simps [simp del]

definition str :: "int \<Rightarrow> string" where
  "str i = (if i < 0 then ''-'' @ str_nat (nat (- i)) else str_nat (nat i))"

text \<open>\<open>hex(n)\<close> for a non-negative integer: \<open>0x\<close> and lower-case digits.\<close>

fun hex_nat :: "string \<Rightarrow> nat \<Rightarrow> string" where
  "hex_nat ds n =
     (if n < 16 then [ds ! n] else hex_nat ds (n div 16) @ [ds ! (n mod 16)])"

declare hex_nat.simps [simp del]

definition hex :: "int \<Rightarrow> string" where
  "hex i = (if i < 0 then ''-0x'' @ hex_nat ''0123456789abcdef'' (nat (- i))
            else ''0x'' @ hex_nat ''0123456789abcdef'' (nat i))"

text \<open>The format specification \<open>:02X\<close>: upper-case hexadecimal, zero-padded to width 2.\<close>

definition fmt_02X :: "int \<Rightarrow> string" where
  "fmt_02X i =
     (if i < 0 then
        (let s = ''-'' @ hex_nat ''0123456789ABCDEF'' (nat (- i))
         in replicate (2 - length s) (CHR ''0'') @ s)
      else
        (let s = hex_nat ''0123456789ABCDEF'' (nat i)
         in replicate (2 - length s) (CHR ''0'') @ s))"

text \<open>\<open>sep.join(parts)\<close>.\<close>

fun join :: "string \<Rightarrow> string list \<Rightarrow> string" where
  "join sep [] = []"
| "join sep [x] = x"
| "join sep (x # y # ys) = x @ sep @ join sep (y # ys)"

subsection \<open>Floating point\<close>

text \<open>Rounding to the nearest integer, ties to the even one.\<close>

definition rhe :: "rat \<Rightarrow> int" where
  "rhe y =
     (let f = \<lfloor>y\<rfloor>; r = y - of_int f
      in if r < 1 / 2 then f else if 1 / 2 < r then f + 1 else if even f then f else f + 1)"

text \<open>The binary exponent of a positive number: the \<open>e\<close> with \<open>2^e \<le> x < 2^(e+1)\<close>.\<close>

definition expo :: "rat \<Rightarrow> int" where
  "expo x = (if 1 \<le> x then bitlen \<lfloor>x\<rfloor> - 1 else - bitlen (\<lceil>1 / x\<rceil> - 1))"

text \<open>
  The double nearest to \<open>x\<close> (round to nearest, ties to even): 53 significant bits,
  exponents from \<open>-1022\<close> on, with the fixed spacing \<open>2^-1074\<close> below (subnormals).
  Overflow to infinity (from \<open>2^1024\<close> on) is left out: every float of this program
  lies between 0 and 1.
\<close>

definition fl :: "rat \<Rightarrow> rat" where
  "fl x =
     (if x = 0 then 0
      else (let q = 2 powi (max (expo \<bar>x\<bar>) (- 1022) - 52)
            in sgn x * of_int (rhe (\<bar>x\<bar> / q)) * q))"

text \<open>A float literal: \<open>lit m n\<close> is the double nearest to the decimal \<open>m / 10^n\<close>, so
  \<open>lit 85 2\<close> is the literal \<open>0.85\<close> and \<open>lit 10 1\<close> is \<open>1.0\<close>.\<close>

definition lit :: "int \<Rightarrow> nat \<Rightarrow> rat" where
  "lit m n = fl (of_int m / 10 ^ n)"

text \<open>\<open>random.uniform(a, b)\<close> is \<open>a + (b - a) * random.random()\<close> in float arithmetic;
  the argument \<open>u\<close> is the value of that inner \<open>random.random()\<close>.\<close>

definition uniform :: "rat \<Rightarrow> rat \<Rightarrow> rat \<Rightarrow> rat" where
  "uniform a b u = fl (a + fl (fl (b - a) * u))"

text \<open>\<open>round(x, 2)\<close> on a float: the exact value of \<open>x\<close> is rounded to the nearest
  multiple of \<open>0.01\<close>, ties to the even multiple, and the result is the double nearest to
  that decimal.\<close>

definition round2 :: "rat \<Rightarrow> rat" where
  "round2 x = lit (rhe (x * 100)) 2"

subsection \<open>Global constants\<close>

definition ECU_NAMES :: "string list" where
  "ECU_NAMES =
     [''Engine ECU'', ''Brake ECU'', ''Steering ECU'', ''Infotainment'', ''Telematics'',
      ''ADAS ECU'']"

definition ATTACK_TYPES :: "string list" where
  "ATTACK_TYPES = [''Spoofing'', ''Replay'', ''DoS'', ''Fuzzing'', ''Sensor Tampering'']"

subsection \<open>Data\<close>

text \<open>A CAN frame, as built in \<open>generate_can_packets\<close> (keys \<open>timestamp\<close>, \<open>id\<close>,
  \<open>ecu\<close>, \<open>dlc\<close>, \<open>data\<close>, \<open>anomaly\<close>).\<close>

record packet =
  pkt_timestamp :: string
  pkt_id :: string
  ecu :: string
  dlc :: int
  data :: string
  anomaly :: bool

record alert =
  level :: string
  source :: string
  message :: string
  attack_type :: string
  attacker_ip :: string

text \<open>One entry of \<open>snapshot["heatmap"]\<close>.\<close>

record cell =
  name :: string
  status :: string

record snapshot =
  speed :: int
  brake_status :: string
  ecu_health :: "string \<rightharpoonup> rat"
  can_anomaly_score :: rat
  attack_active :: bool
  heatmap :: "cell list"
  security_alerts :: "alert list"
  can_packets :: "packet list"
  forced_attack :: bool
  timestamp :: string

text \<open>One entry of \<open>ANALYTICS["events_timeline"]\<close> (keys \<open>timestamp\<close>,
  \<open>total_alerts\<close>, \<open>critical_alerts\<close>, \<open>attack_active\<close>).\<close>

record event =
  ev_timestamp :: string
  total_alerts :: int
  critical_alerts :: int
  ev_attack_active :: bool

text \<open>A \<open>collections.Counter\<close>: a dictionary from keys to counts in which a missing
  key reads as \<open>0\<close>.\<close>

type_synonym counter = "string \<rightharpoonup> int"

definition count :: "counter \<Rightarrow> string \<Rightarrow> int" where
  "count c k = (case c k of None \<Rightarrow> 0 | Some n \<Rightarrow> n)"

text \<open>\<open>c[k] += 1\<close>.\<close>

definition incr :: "counter \<Rightarrow> string \<Rightarrow> counter" where
  "incr c k = c(k \<mapsto> count c k + 1)"

record analytics =
  attack_counts_by_ecu :: counter
  attack_counts_by_type :: counter
  attack_counts_by_attacker :: counter
  events_timeline :: "event list"

record state =
  FORCE_ATTACK :: bool
  ANALYTICS :: analytics
  LAST_SNAPSHOT :: "snapshot option"
  LOG :: "snapshot list"

text \<open>The module's initial state (lines 29--42); the log file is taken to be empty.\<close>

definition init_analytics :: analytics where
  "init_analytics =
     \<lparr>attack_counts_by_ecu = Map.empty, attack_counts_by_type = Map.empty,
      attack_counts_by_attacker = Map.empty, events_timeline = []\<rparr>"

definition init_state :: state where
  "init_state =
     \<lparr>FORCE_ATTACK = False, ANALYTICS = init_analytics, LAST_SNAPSHOT = None, LOG = []\<rparr>"

subsection \<open>The inputs of one tick\<close>

text \<open>
  The values returned by the calls into \<open>random\<close> during one \<open>generate_telemetry\<close>, one
  field per call site. A field indexed by \<open>nat\<close> is a call inside a \<open>range\<close> loop, indexed
  by the loop counter; a field indexed by an ECU name is a call inside a loop over the
  ECUs. \<open>rat\<close> fields are results of \<open>random.random()\<close>, \<open>int\<close> fields results of
  \<open>random.randint\<close>, and \<open>r_pkt_ecu\<close> is the result of \<open>random.choice(ECU_NAMES)\<close>.
\<close>

record draws =
  r_speed :: int
  r_brake :: rat
  r_health :: "string \<Rightarrow> rat"
  r_base :: rat
  r_hint :: rat
  r_pkt_ecu :: "nat \<Rightarrow> string"
  r_pkt_id :: "nat \<Rightarrow> int"
  r_pkt_byte :: "nat \<Rightarrow> nat \<Rightarrow> int"
  r_pkt_anomaly :: "nat \<Rightarrow> rat"
  r_ip_can :: "nat \<Rightarrow> int"
  r_ip_physics :: "nat \<Rightarrow> int"
  r_ip_brake :: "nat \<Rightarrow> int"
  r_rule_health :: "string \<Rightarrow> rat"
  r_force_score :: rat
  r_force_health :: "string \<Rightarrow> rat"

text \<open>The clock readings, already formatted by \<open>strftime\<close>, and whether the append to
  the log file succeeds.\<close>

record env =
  now_pkt :: "nat \<Rightarrow> string"
  now_snapshot :: string
  now_timeline :: string
  log_ok :: bool

text \<open>\<open>random.random()\<close> returns a float in the half-open interval \<open>[0, 1)\<close>.\<close>

definition unit_draw :: "rat \<Rightarrow> bool" where
  "unit_draw u \<longleftrightarrow> 0 \<le> u \<and> u < 1"

subsection \<open>Helpers\<close>

text \<open>\<open>random_ip\<close>: four octets joined by dots; \<open>octet i\<close> is the \<open>i\<close>-th
  \<open>random.randint(1, 254)\<close>.\<close>

definition random_ip :: "(nat \<Rightarrow> int) \<Rightarrow> string" where
  "random_ip octet = join ''.'' (map (\<lambda>i. str (octet i)) [0..<4])"

text \<open>\<open>log_telemetry\<close>: append one record; any failure is swallowed.\<close>

definition log_telemetry :: "bool \<Rightarrow> snapshot \<Rightarrow> snapshot list \<Rightarrow> snapshot list" where
  "log_telemetry ok d lg = (if ok then lg @ [d] else lg)"

definition generate_can_packets :: "draws \<Rightarrow> env \<Rightarrow> bool \<Rightarrow> packet list" where
  "generate_can_packets d e attack_hint =
     map (\<lambda>i.
        let can_id = hex (r_pkt_id d i);
            data_hex = join '' '' (map (\<lambda>j. fmt_02X (r_pkt_byte d i j)) [0..<8]);
            anomaly_prob = (if attack_hint then lit 35 2 else lit 3 2)
        in \<lparr>pkt_timestamp = now_pkt e i, pkt_id = can_id, ecu = r_pkt_ecu d i, dlc = 8,
            data = data_hex, anomaly = (r_pkt_anomaly d i < anomaly_prob)\<rparr>)
       [0..<15]"

subsection \<open>The rule engine\<close>

text \<open>The three alerts that \<open>evaluate_rules\<close> can append. The physics message contains
  the two-byte UTF-8 encoding of the Greek capital delta.\<close>

definition can_alert :: "draws \<Rightarrow> nat \<Rightarrow> alert" where
  "can_alert d n =
     \<lparr>level = ''HIGH'', source = ''Telematics'',
      message = str (int n) @ '' anomalous CAN frames detected'',
      attack_type = ''DoS/Fuzzing'', attacker_ip = random_ip (r_ip_can d)\<rparr>"

definition physics_alert :: "draws \<Rightarrow> int \<Rightarrow> alert" where
  "physics_alert d delta =
     \<lparr>level = ''HIGH'', source = ''Engine ECU'',
      message = ''Implausible speed jump '' @ [CHR 0xCE, CHR 0x94] @ ''v='' @ str delta
                @ '' km/h'',
      attack_type = ''Physical Implausibility'', attacker_ip = random_ip (r_ip_physics d)\<rparr>"

definition brake_alert :: "draws \<Rightarrow> int \<Rightarrow> alert" where
  "brake_alert d spd =
     \<lparr>level = ''CRITICAL'', source = ''Brake ECU'',
      message = ''Brake engaged at '' @ str spd @ '' km/h'',
      attack_type = ''Safety Violation'', attacker_ip = random_ip (r_ip_brake d)\<rparr>"

definition evaluate_rules ::
  "draws \<Rightarrow> snapshot \<Rightarrow> snapshot option \<Rightarrow> packet list \<Rightarrow> bool \<times> alert list" where
  "evaluate_rules d snap prev_snapshot can_pkts =
     (let alerts = [];
          rule_attack = False;
          anomaly_frames = filter anomaly can_pkts;
          (rule_attack, alerts) =
            (if 8 \<le> length anomaly_frames
             then (True, alerts @ [can_alert d (length anomaly_frames)])
             else (rule_attack, alerts));
          spd = speed snap;
          (rule_attack, alerts) =
            (case prev_snapshot of
               None \<Rightarrow> (rule_attack, alerts)
             | Some prev \<Rightarrow>
                 (let delta = \<bar>spd - speed prev\<bar>
                  in if 60 < delta
                     then (True, alerts @ [physics_alert d delta])
                     else (rule_attack, alerts)));
          (rule_attack, alerts) =
            (if brake_status snap = ''ON'' \<and> 120 < spd
             then (True, alerts @ [brake_alert d spd])
             else (rule_attack, alerts))
      in (rule_attack, alerts))"

subsection \<open>The analytics aggregator\<close>

text \<open>The body of the loop \<open>for a in alerts\<close> of \<open>update_analytics\<close>.\<close>

definition count_alert :: "alert \<Rightarrow> analytics \<Rightarrow> analytics" where
  "count_alert a A =
     (let A = (if source a \<in> set ECU_NAMES
               then A\<lparr>attack_counts_by_ecu := incr (attack_counts_by_ecu A) (source a)\<rparr>
               else A);
          A = A\<lparr>attack_counts_by_type := incr (attack_counts_by_type A) (attack_type a)\<rparr>;
          A = A\<lparr>attack_counts_by_attacker :=
                   incr (attack_counts_by_attacker A) (attacker_ip a)\<rparr>
      in A)"

text \<open>The timeline entry that \<open>update_analytics\<close> appends; \<open>now\<close> is the formatted
  clock reading.\<close>

definition timeline_entry :: "string \<Rightarrow> alert list \<Rightarrow> bool \<Rightarrow> event" where
  "timeline_entry now alerts active =
     \<lparr>ev_timestamp = now, total_alerts = int (length alerts),
      critical_alerts =
        int (length (filter (\<lambda>a. level a \<in> set [''HIGH'', ''CRITICAL'']) alerts)),
      ev_attack_active = active\<rparr>"

definition update_analytics :: "string \<Rightarrow> alert list \<Rightarrow> bool \<Rightarrow> analytics \<Rightarrow> analytics" where
  "update_analytics now alerts active A =
     (let A = A\<lparr>events_timeline := events_timeline A @ [timeline_entry now alerts active]\<rparr>;
          A = (if 200 < length (events_timeline A)
               then A\<lparr>events_timeline := tl (events_timeline A)\<rparr>
               else A)
      in fold count_alert alerts A)"

subsection \<open>The telemetry generator\<close>

text \<open>The loop of lines 177--180: the three named ECUs get status \<open>warning\<close> and a
  fresh health value; the result is the heatmap and the health dictionary after the
  loop.\<close>

fun warn_loop ::
  "draws \<Rightarrow> cell list \<Rightarrow> (string \<rightharpoonup> rat) \<Rightarrow> cell list \<times> (string \<rightharpoonup> rat)" where
  "warn_loop d [] h = ([], h)"
| "warn_loop d (c # cs) h =
     (if name c \<in> set [''Engine ECU'', ''Brake ECU'', ''Telematics'']
      then (let h1 = h(name c \<mapsto>
                         round2 (uniform (lit 3 1) (lit 7 1) (r_rule_health d (name c))));
                (cs', h') = warn_loop d cs h1
            in (c\<lparr>status := ''warning''\<rparr> # cs', h'))
      else (let (cs', h') = warn_loop d cs h in (c # cs', h')))"

text \<open>The loop of lines 186--188: every ECU gets status \<open>compromised\<close> and a fresh
  health value.\<close>

fun force_loop ::
  "draws \<Rightarrow> cell list \<Rightarrow> (string \<rightharpoonup> rat) \<Rightarrow> cell list \<times> (string \<rightharpoonup> rat)" where
  "force_loop d [] h = ([], h)"
| "force_loop d (c # cs) h =
     (let h1 = h(name c \<mapsto>
                   round2 (uniform (lit 2 1) (lit 5 1) (r_force_health d (name c))));
          (cs', h') = force_loop d cs h1
      in (c\<lparr>status := ''compromised''\<rparr> # cs', h'))"

definition generate_telemetry :: "draws \<Rightarrow> env \<Rightarrow> state \<Rightarrow> snapshot \<times> state" where
  "generate_telemetry d e s =
     (let spd = r_speed d;
          brake = (if r_brake d < lit 25 2 then ''ON'' else ''OFF'');
          health = fold (\<lambda>n h. h(n \<mapsto> round2 (uniform (lit 8 1) (lit 10 1) (r_health d n))))
                     ECU_NAMES Map.empty;
          base_anomaly = fl (r_base d * lit 2 1);
          score = base_anomaly;
          attack_hint = (FORCE_ATTACK s \<or> r_hint d < lit 1 1);
          can_pkts = generate_can_packets d e attack_hint;
          snap = \<lparr>speed = spd, brake_status = brake, ecu_health = health,
                  can_anomaly_score = round2 score, attack_active = False,
                  heatmap = map (\<lambda>n. \<lparr>name = n, status = ''ok''\<rparr>) ECU_NAMES,
                  security_alerts = [], can_packets = can_pkts,
                  forced_attack = FORCE_ATTACK s, timestamp = now_snapshot e\<rparr>;
          (rule_attack, rule_alerts) = evaluate_rules d snap (LAST_SNAPSHOT s) can_pkts;
          snap = snap\<lparr>security_alerts := security_alerts snap @ rule_alerts\<rparr>;
          snap = (if rule_attack
                  then (let (hm, h) = warn_loop d (heatmap snap) (ecu_health snap)
                        in snap\<lparr>attack_active := True, heatmap := hm, ecu_health := h\<rparr>)
                  else snap);
          snap = (if FORCE_ATTACK s
                  then (let (hm, h) = force_loop d (heatmap snap) (ecu_health snap)
                        in snap\<lparr>attack_active := True,
                                can_anomaly_score :=
                                  round2 (uniform (lit 85 2) (lit 10 1) (r_force_score d)),
                                heatmap := hm, ecu_health := h\<rparr>)
                  else snap);
          A = update_analytics (now_timeline e) (security_alerts snap) (attack_active snap)
                (ANALYTICS s)
      in (snap, s\<lparr>ANALYTICS := A, LAST_SNAPSHOT := Some snap,
                   LOG := log_telemetry (log_ok e) snap (LOG s)\<rparr>))"

subsection \<open>The force-attack route\<close>

text \<open>The value of \<open>request.json\<close>: a parsed JSON document. (A body that Flask cannot
  parse makes \<open>request.json\<close> itself fail, before the handler's own code runs.)\<close>

datatype json =
  JNull | JBool bool | JInt int | JFloat rat | JStr string
  | JArr "json list" | JObj "(string \<times> json) list"

datatype error = AttributeError

text \<open>\<open>obj.get(key)\<close> on the dictionary parsed from a JSON object: the last member of
  that name, \<open>None\<close> when there is none.\<close>

definition dict_get :: "(string \<times> json) list \<Rightarrow> string \<Rightarrow> json" where
  "dict_get kvs k = (case map_of (rev kvs) k of None \<Rightarrow> JNull | Some v \<Rightarrow> v)"

text \<open>\<open>force_attack\<close>: only a dictionary has \<open>.get\<close>; on any other value the attribute
  lookup raises. The result is the JSON response and the new state.\<close>

definition force_attack :: "json \<Rightarrow> state \<Rightarrow> error + (json \<times> state)" where
  "force_attack body s =
     (case body of
        JObj kvs \<Rightarrow>
          (let s' = s\<lparr>FORCE_ATTACK := (dict_get kvs ''mode'' = JStr ''on'')\<rparr>
           in Inr (JObj [(''forced_attack'', JBool (FORCE_ATTACK s'))], s'))
      | _ \<Rightarrow> Inl AttributeError)"

subsection \<open>Sequences of ticks\<close>

text \<open>Repeated calls of \<open>update_analytics\<close>, one per tick: a tick is the clock reading,
  the alerts and the verdict passed to the call.\<close>

fun record_ticks :: "(string \<times> alert list \<times> bool) list \<Rightarrow> analytics \<Rightarrow> analytics" where
  "record_ticks [] A = A"
| "record_ticks ((now, alerts, active) # ts) A =
     record_ticks ts (update_analytics now alerts active A)"

subsection \<open>Concrete inputs\<close>

text \<open>A tick's draws in which no frame is anomalous: speed 130 with the brake on, the
  base score and the initial health drawn as \<open>1/8\<close>, the other \<open>random.random()\<close>
  as \<open>1/2\<close>, every octet 10.\<close>

definition draws0 :: draws where
  "draws0 =
     \<lparr>r_speed = 130, r_brake = 0, r_health = (\<lambda>_. 1 / 8), r_base = 1 / 8, r_hint = 1 / 2,
      r_pkt_ecu = (\<lambda>_. ''Telematics''), r_pkt_id = (\<lambda>_. 256), r_pkt_byte = (\<lambda>_ _. 0),
      r_pkt_anomaly = (\<lambda>_. 1 / 2), r_ip_can = (\<lambda>_. 10), r_ip_physics = (\<lambda>_. 10),
      r_ip_brake = (\<lambda>_. 10), r_rule_health = (\<lambda>_. 1 / 2), r_force_score = 1 / 2,
      r_force_health = (\<lambda>_. 1 / 2)\<rparr>"

definition env0 :: env where
  "env0 =
     \<lparr>now_pkt = (\<lambda>_. ''12:00:00''), now_snapshot = ''2024-01-01 12:00:00'',
      now_timeline = ''12:00:00'', log_ok = True\<rparr>"

text \<open>A snapshot with the given speed and brake status, as it is before the rules run.\<close>

definition snap_at :: "int \<Rightarrow> string \<Rightarrow> snapshot" where
  "snap_at spd brake =
     \<lparr>speed = spd, brake_status = brake, ecu_health = Map.empty, can_anomaly_score = 0,
      attack_active = False, heatmap = [], security_alerts = [], can_packets = [],
      forced_attack = False, timestamp = ''2024-01-01 12:00:00''\<rparr>"

text \<open>A batch of 15 frames of which the first \<open>n\<close> carry the anomaly flag.\<close>

definition frames :: "nat \<Rightarrow> packet list" where
  "frames n =
     map (\<lambda>i. \<lparr>pkt_timestamp = ''12:00:00'', pkt_id = ''0x100'', ecu = ''Telematics'',
               dlc = 8, data = ''00 00 00 00 00 00 00 00'', anomaly = (i < n)\<rparr>)
       [0..<15]"

text \<open>The same draws at speed 50: no rule fires.\<close>

definition draws_quiet :: draws where
  "draws_quiet = draws0\<lparr>r_speed := 50\<rparr>"

text \<open>The initial state after \<open>force_attack\<close> has switched the flag on.\<close>

definition forced_state :: state where
  "forced_state = init_state\<lparr>FORCE_ATTACK := True\<rparr>"

text \<open>One recorded tick with two alerts (CAN anomaly and safety violation).\<close>

definition ticks0 :: "(string \<times> alert list \<times> bool) list" where
  "ticks0 =
     [(''12:00:00'', snd (evaluate_rules draws0 (snap_at 121 ''ON'') None (frames 8)), True)]"

text \<open>250 ticks without alerts, the \<open>i\<close>-th stamped with the number \<open>i\<close>.\<close>

definition ticks250 :: "(string \<times> alert list \<times> bool) list" where
  "ticks250 = map (\<lambda>i. (str (int i), [], False)) [0..<250]"

section \<open>Properties\<close>

subsection \<open>Evaluation of the concrete inputs\<close>

lemma upt_values:
  "[0..<4] = [0, 1, 2, 3]"
  "[0..<8] = [0, 1, 2, 3, 4, 5, 6, 7]"
  "[0..<15] = [0, 1, 2, 3, 4, 5, 6, 7, 8, 9, 10, 11, 12, 13, 14]"
  by code_simp+

lemma str_values:
  "str 8 = ''8''" "str 10 = ''10''" "str 110 = ''110''" "str 121 = ''121''"
  "str 130 = ''130''"
  by (simp_all add: str_def str_nat.simps)

lemma random_ip_draws0:
  "random_ip (r_ip_can draws0) = ''10.10.10.10''"
  "random_ip (r_ip_physics draws0) = ''10.10.10.10''"
  "random_ip (r_ip_brake draws0) = ''10.10.10.10''"
  by (simp_all add: random_ip_def draws0_def str_values upt_values)

lemma frames_anomalous:
  "length (frames n) = 15"
  "length (filter anomaly (frames 8)) = 8"
  "length (filter anomaly (frames 7)) = 7"
  "length (filter anomaly (frames 0)) = 0"
  by (simp_all add: frames_def upt_values)

subsection \<open>The rule engine\<close>

text \<open>The alerts in closed form: each rule contributes at most one alert, in the order
  CAN, physics, brake; the flag is set exactly when some rule contributes.\<close>

lemma evaluate_rules_alerts:
  "snd (evaluate_rules d snap prev pkts) =
     (if 8 \<le> length (filter anomaly pkts) then [can_alert d (length (filter anomaly pkts))]
      else [])
     @ (case prev of
          None \<Rightarrow> []
        | Some p \<Rightarrow>
            if 60 < \<bar>speed snap - speed p\<bar> then [physics_alert d \<bar>speed snap - speed p\<bar>]
            else [])
     @ (if brake_status snap = ''ON'' \<and> 120 < speed snap then [brake_alert d (speed snap)]
        else [])"
  by (cases prev) (auto simp add: evaluate_rules_def Let_def)

lemma evaluate_rules_fired:
  "fst (evaluate_rules d snap prev pkts) \<longleftrightarrow>
     8 \<le> length (filter anomaly pkts)
     \<or> (\<exists>p. prev = Some p \<and> 60 < \<bar>speed snap - speed p\<bar>)
     \<or> (brake_status snap = ''ON'' \<and> 120 < speed snap)"
  by (cases prev) (auto simp add: evaluate_rules_def Let_def)

lemma alert_fields [simp]:
  "attack_type (can_alert d n) = ''DoS/Fuzzing''"
  "attack_type (physics_alert d k) = ''Physical Implausibility''"
  "attack_type (brake_alert d k) = ''Safety Violation''"
  "source (can_alert d n) = ''Telematics''"
  "source (physics_alert d k) = ''Engine ECU''"
  "source (brake_alert d k) = ''Brake ECU''"
  "level (can_alert d n) = ''HIGH''"
  "level (physics_alert d k) = ''HIGH''"
  "level (brake_alert d k) = ''CRITICAL''"
  by (simp_all add: can_alert_def physics_alert_def brake_alert_def)

text \<open>
  C2. Among the alerts that \<open>evaluate_rules\<close> returns, those of attack type
  \<open>DoS/Fuzzing\<close> (equally: those attributed to \<open>Telematics\<close>) are exactly one alert
  with level \<open>HIGH\<close>, source \<open>Telematics\<close> and a message that starts with the decimal
  count of anomalous frames when that count is at least 8, and none when it is 7 or
  less. This holds for a batch of any length, in particular for 15 frames.
\<close>

theorem can_anomaly_rule:
  "filter (\<lambda>a. attack_type a = ''DoS/Fuzzing'') (snd (evaluate_rules d snap prev pkts)) =
     (if 8 \<le> length (filter anomaly pkts)
      then [\<lparr>level = ''HIGH'', source = ''Telematics'',
             message = str (int (length (filter anomaly pkts)))
                       @ '' anomalous CAN frames detected'',
             attack_type = ''DoS/Fuzzing'', attacker_ip = random_ip (r_ip_can d)\<rparr>]
      else [])
   \<and> filter (\<lambda>a. source a = ''Telematics'') (snd (evaluate_rules d snap prev pkts)) =
     filter (\<lambda>a. attack_type a = ''DoS/Fuzzing'') (snd (evaluate_rules d snap prev pkts))"
  unfolding evaluate_rules_alerts by (simp add: can_alert_def split: option.split)

theorem can_anomaly_rule_witness:
  "length (frames 8) = 15 \<and> length (frames 7) = 15
   \<and> filter (\<lambda>a. attack_type a = ''DoS/Fuzzing'')
       (snd (evaluate_rules draws0 (snap_at 50 ''OFF'') None (frames 8))) =
     [\<lparr>level = ''HIGH'', source = ''Telematics'',
       message = ''8 anomalous CAN frames detected'',
       attack_type = ''DoS/Fuzzing'', attacker_ip = ''10.10.10.10''\<rparr>]
   \<and> filter (\<lambda>a. attack_type a = ''DoS/Fuzzing'')
       (snd (evaluate_rules draws0 (snap_at 50 ''OFF'') None (frames 7))) = []"
  using can_anomaly_rule [of draws0 "snap_at 50 ''OFF''" None "frames 8"]
    can_anomaly_rule [of draws0 "snap_at 50 ''OFF''" None "frames 7"]
  by (simp add: frames_anomalous random_ip_draws0 str_values)

text \<open>
  C5. With a previous snapshot, the alerts of attack type \<open>Physical Implausibility\<close>
  are exactly one alert with level \<open>HIGH\<close>, source \<open>Engine ECU\<close> and a message that
  reports the speed difference when that difference exceeds 60 in absolute value, and
  none otherwise; without a previous snapshot there is none whatever the speed.
\<close>

theorem physics_rule:
  "filter (\<lambda>a. attack_type a = ''Physical Implausibility'')
     (snd (evaluate_rules d snap prev pkts)) =
     (case prev of
        None \<Rightarrow> []
      | Some p \<Rightarrow>
          if 60 < \<bar>speed snap - speed p\<bar>
          then [\<lparr>level = ''HIGH'', source = ''Engine ECU'',
                 message = ''Implausible speed jump '' @ [CHR 0xCE, CHR 0x94] @ ''v=''
                           @ str \<bar>speed snap - speed p\<bar> @ '' km/h'',
                 attack_type = ''Physical Implausibility'',
                 attacker_ip = random_ip (r_ip_physics d)\<rparr>]
          else [])
   \<and> filter (\<lambda>a. source a = ''Engine ECU'') (snd (evaluate_rules d snap prev pkts)) =
     filter (\<lambda>a. attack_type a = ''Physical Implausibility'')
       (snd (evaluate_rules d snap prev pkts))"
  unfolding evaluate_rules_alerts by (simp add: physics_alert_def split: option.split)

theorem physics_rule_witness:
  "filter (\<lambda>a. attack_type a = ''Physical Implausibility'')
     (snd (evaluate_rules draws0 (snap_at 140 ''OFF'') (Some (snap_at 30 ''OFF'')) (frames 0))) =
     [\<lparr>level = ''HIGH'', source = ''Engine ECU'',
       message = ''Implausible speed jump '' @ [CHR 0xCE, CHR 0x94] @ ''v=110 km/h'',
       attack_type = ''Physical Implausibility'', attacker_ip = ''10.10.10.10''\<rparr>]
   \<and> filter (\<lambda>a. attack_type a = ''Physical Implausibility'')
     (snd (evaluate_rules draws0 (snap_at 50 ''OFF'') (Some (snap_at 30 ''OFF'')) (frames 0))) = []
   \<and> filter (\<lambda>a. attack_type a = ''Physical Implausibility'')
     (snd (evaluate_rules draws0 (snap_at 140 ''OFF'') None (frames 0))) = []"
  using physics_rule [of draws0 "snap_at 140 ''OFF''" "Some (snap_at 30 ''OFF'')" "frames 0"]
    physics_rule [of draws0 "snap_at 50 ''OFF''" "Some (snap_at 30 ''OFF'')" "frames 0"]
    physics_rule [of draws0 "snap_at 140 ''OFF''" None "frames 0"]
  by (simp add: snap_at_def random_ip_draws0 str_values)

text \<open>
  C6. The alerts of attack type \<open>Safety Violation\<close> are exactly one alert with level
  \<open>CRITICAL\<close> and source \<open>Brake ECU\<close> when the brake status is \<open>ON\<close> and the speed is
  greater than 120, and none otherwise. At speed 120 with the brake on there is none; at
  121 there is one.
\<close>

theorem safety_rule:
  "filter (\<lambda>a. attack_type a = ''Safety Violation'')
     (snd (evaluate_rules d snap prev pkts)) =
     (if brake_status snap = ''ON'' \<and> 120 < speed snap
      then [\<lparr>level = ''CRITICAL'', source = ''Brake ECU'',
             message = ''Brake engaged at '' @ str (speed snap) @ '' km/h'',
             attack_type = ''Safety Violation'', attacker_ip = random_ip (r_ip_brake d)\<rparr>]
      else [])
   \<and> filter (\<lambda>a. source a = ''Brake ECU'') (snd (evaluate_rules d snap prev pkts)) =
     filter (\<lambda>a. attack_type a = ''Safety Violation'') (snd (evaluate_rules d snap prev pkts))
   \<and> filter (\<lambda>a. level a = ''CRITICAL'') (snd (evaluate_rules d snap prev pkts)) =
     filter (\<lambda>a. attack_type a = ''Safety Violation'') (snd (evaluate_rules d snap prev pkts))"
  unfolding evaluate_rules_alerts by (simp add: brake_alert_def split: option.split)

theorem safety_rule_witness:
  "filter (\<lambda>a. attack_type a = ''Safety Violation'')
     (snd (evaluate_rules draws0 (snap_at 121 ''ON'') None (frames 0))) =
     [\<lparr>level = ''CRITICAL'', source = ''Brake ECU'', message = ''Brake engaged at 121 km/h'',
       attack_type = ''Safety Violation'', attacker_ip = ''10.10.10.10''\<rparr>]
   \<and> filter (\<lambda>a. attack_type a = ''Safety Violation'')
     (snd (evaluate_rules draws0 (snap_at 120 ''ON'') None (frames 0))) = []
   \<and> filter (\<lambda>a. attack_type a = ''Safety Violation'')
     (snd (evaluate_rules draws0 (snap_at 121 ''OFF'') None (frames 0))) = []"
  using safety_rule [of draws0 "snap_at 121 ''ON''" None "frames 0"]
    safety_rule [of draws0 "snap_at 120 ''ON''" None "frames 0"]
    safety_rule [of draws0 "snap_at 121 ''OFF''" None "frames 0"]
  by (simp add: snap_at_def random_ip_draws0 str_values)

lemma evaluate_rules_fired_alerts:
  "fst (evaluate_rules d snap prev pkts) \<longleftrightarrow> snd (evaluate_rules d snap prev pkts) \<noteq> []"
  unfolding evaluate_rules_alerts evaluate_rules_fired by (cases prev) auto

text \<open>The rules read only the speed and the brake status of the snapshot.\<close>

lemma evaluate_rules_cong:
  "speed s1 = speed s2 \<Longrightarrow> brake_status s1 = brake_status s2 \<Longrightarrow>
   evaluate_rules d s1 prev pk = evaluate_rules d s2 prev pk"
  by (simp add: evaluate_rules_def)

lemma evaluate_rules_record:
  "evaluate_rules d
     \<lparr>speed = v, brake_status = b, ecu_health = h, can_anomaly_score = c, attack_active = a,
      heatmap = hm, security_alerts = al, can_packets = cp, forced_attack = fa,
      timestamp = t\<rparr> prev pk =
   evaluate_rules d (snap_at v b) prev pk"
  by (rule evaluate_rules_cong) (simp_all add: snap_at_def)

subsection \<open>The analytics aggregator\<close>

lemma count_incr: "count (incr c k) k' = (if k' = k then count c k + 1 else count c k')"
  by (simp add: count_def incr_def)

lemma count_init [simp]:
  "count (attack_counts_by_ecu init_analytics) k = 0"
  "count (attack_counts_by_type init_analytics) k = 0"
  "count (attack_counts_by_attacker init_analytics) k = 0"
  by (simp_all add: init_analytics_def count_def)

lemma count_alert_fields:
  "attack_counts_by_ecu (count_alert a A) =
     (if source a \<in> set ECU_NAMES then incr (attack_counts_by_ecu A) (source a)
      else attack_counts_by_ecu A)"
  "attack_counts_by_type (count_alert a A) = incr (attack_counts_by_type A) (attack_type a)"
  "attack_counts_by_attacker (count_alert a A) =
     incr (attack_counts_by_attacker A) (attacker_ip a)"
  "events_timeline (count_alert a A) = events_timeline A"
  by (simp_all add: count_alert_def Let_def)

lemma fold_count_alert_timeline:
  "events_timeline (fold count_alert alerts A) = events_timeline A"
  by (induction alerts arbitrary: A) (simp_all add: count_alert_fields)

lemma fold_count_alert_ecu:
  "count (attack_counts_by_ecu (fold count_alert alerts A)) k =
     count (attack_counts_by_ecu A) k
     + int (length (filter (\<lambda>a. source a = k \<and> source a \<in> set ECU_NAMES) alerts))"
  by (induction alerts arbitrary: A) (auto simp add: count_alert_fields count_incr)

lemma fold_count_alert_type:
  "count (attack_counts_by_type (fold count_alert alerts A)) k =
     count (attack_counts_by_type A) k
     + int (length (filter (\<lambda>a. attack_type a = k) alerts))"
  by (induction alerts arbitrary: A) (auto simp add: count_alert_fields count_incr)

lemma fold_count_alert_attacker:
  "count (attack_counts_by_attacker (fold count_alert alerts A)) k =
     count (attack_counts_by_attacker A) k
     + int (length (filter (\<lambda>a. attacker_ip a = k) alerts))"
  by (induction alerts arbitrary: A) (auto simp add: count_alert_fields count_incr)

lemma update_analytics_timeline:
  "events_timeline (update_analytics now alerts active A) =
     (if 200 \<le> length (events_timeline A)
      then tl (events_timeline A @ [timeline_entry now alerts active])
      else events_timeline A @ [timeline_entry now alerts active])"
  by (simp add: update_analytics_def Let_def fold_count_alert_timeline)

lemma update_analytics_ecu:
  "count (attack_counts_by_ecu (update_analytics now alerts active A)) k =
     count (attack_counts_by_ecu A) k
     + int (length (filter (\<lambda>a. source a = k \<and> source a \<in> set ECU_NAMES) alerts))"
  by (simp add: update_analytics_def Let_def fold_count_alert_ecu)

lemma update_analytics_type:
  "count (attack_counts_by_type (update_analytics now alerts active A)) k =
     count (attack_counts_by_type A) k
     + int (length (filter (\<lambda>a. attack_type a = k) alerts))"
  by (simp add: update_analytics_def Let_def fold_count_alert_type)

lemma update_analytics_attacker:
  "count (attack_counts_by_attacker (update_analytics now alerts active A)) k =
     count (attack_counts_by_attacker A) k
     + int (length (filter (\<lambda>a. attacker_ip a = k) alerts))"
  by (simp add: update_analytics_def Let_def fold_count_alert_attacker)

lemma record_ticks_ecu:
  "count (attack_counts_by_ecu (record_ticks ts A)) k =
     count (attack_counts_by_ecu A) k
     + int (length (filter (\<lambda>a. source a = k \<and> source a \<in> set ECU_NAMES)
                      (concat (map (\<lambda>t. fst (snd t)) ts))))"
  by (induction ts A rule: record_ticks.induct) (simp_all add: update_analytics_ecu)

lemma record_ticks_type:
  "count (attack_counts_by_type (record_ticks ts A)) k =
     count (attack_counts_by_type A) k
     + int (length (filter (\<lambda>a. attack_type a = k) (concat (map (\<lambda>t. fst (snd t)) ts))))"
  by (induction ts A rule: record_ticks.induct) (simp_all add: update_analytics_type)

lemma record_ticks_attacker:
  "count (attack_counts_by_attacker (record_ticks ts A)) k =
     count (attack_counts_by_attacker A) k
     + int (length (filter (\<lambda>a. attacker_ip a = k) (concat (map (\<lambda>t. fst (snd t)) ts))))"
  by (induction ts A rule: record_ticks.induct) (simp_all add: update_analytics_attacker)

text \<open>The timeline after any number of ticks, from a timeline within its capacity: the
  entries already there followed by the new ones, cut down to the last 200.\<close>

lemma record_ticks_timeline:
  "length (events_timeline A) \<le> 200 \<Longrightarrow>
   events_timeline (record_ticks ts A) =
     drop (length (events_timeline A) + length ts - 200)
       (events_timeline A @ map (\<lambda>(now, alerts, active). timeline_entry now alerts active) ts)"
proof (induction ts A rule: record_ticks.induct)
  case (1 A)
  then show ?case by simp
next
  case (2 now alerts active ts A)
  let ?e = "timeline_entry now alerts active"
  let ?A' = "update_analytics now alerts active A"
  let ?rest = "map (\<lambda>(now, alerts, active). timeline_entry now alerts active) ts"
  show ?case
  proof (cases "200 \<le> length (events_timeline A)")
    case True
    with 2(2) have len: "length (events_timeline A) = 200" by simp
    then have ne: "events_timeline A \<noteq> []" by auto
    have t': "events_timeline ?A' = tl (events_timeline A) @ [?e]"
      using True ne by (simp add: update_analytics_timeline)
    have l': "length (events_timeline ?A') = 200" using len t' by simp
    have "events_timeline (record_ticks ts ?A') =
            drop (length ts) (tl (events_timeline A) @ [?e] @ ?rest)"
      using 2(1) l' t' by simp
    also have "\<dots> = drop (Suc (length ts)) (events_timeline A @ [?e] @ ?rest)"
      using ne by (cases "events_timeline A") simp_all
    finally show ?thesis using len by simp
  next
    case False
    have t': "events_timeline ?A' = events_timeline A @ [?e]"
      using False by (simp add: update_analytics_timeline)
    have l': "length (events_timeline ?A') \<le> 200" using False t' by simp
    show ?thesis using 2(1) [OF l'] t' by simp
  qed
qed

text \<open>
  C3. One call of \<open>update_analytics\<close> appends exactly one entry to the timeline and then
  drops the entry at index 0 exactly when the appended timeline has more than 200
  entries, and nothing otherwise. A timeline of at most 200 entries stays at most 200
  long. Starting from the empty timeline of the module, after any sequence of calls the
  timeline is the sequence of appended entries in call order with all but the last 200
  removed from the front, so it never holds more than 200 entries.
\<close>

theorem timeline_capped_fifo:
  "events_timeline (update_analytics now alerts active A) =
     drop (if 200 < length (events_timeline A) + 1 then 1 else 0)
       (events_timeline A @ [timeline_entry now alerts active])
   \<and> (length (events_timeline A) \<le> 200 \<longrightarrow>
        length (events_timeline (update_analytics now alerts active A)) \<le> 200)
   \<and> events_timeline (record_ticks ts init_analytics) =
       drop (length ts - 200)
         (map (\<lambda>(now, alerts, active). timeline_entry now alerts active) ts)
   \<and> length (events_timeline (record_ticks ts init_analytics)) \<le> 200"
proof -
  have step: "events_timeline (update_analytics now alerts active A) =
     drop (if 200 < length (events_timeline A) + 1 then 1 else 0)
       (events_timeline A @ [timeline_entry now alerts active])"
    by (cases "events_timeline A") (simp_all add: update_analytics_timeline)
  have keep: "length (events_timeline (update_analytics now alerts active A)) \<le> 200"
    if "length (events_timeline A) \<le> 200"
    using that by (simp add: update_analytics_timeline)
  have init: "length (events_timeline init_analytics) \<le> 200"
    by (simp add: init_analytics_def)
  have run: "events_timeline (record_ticks ts init_analytics) =
       drop (length ts - 200)
         (map (\<lambda>(now, alerts, active). timeline_entry now alerts active) ts)"
    using record_ticks_timeline [OF init, of ts] by (simp add: init_analytics_def)
  have "length (events_timeline (record_ticks ts init_analytics)) \<le> 200"
    unfolding run by simp
  with step keep run show ?thesis by blast
qed

theorem timeline_capped_fifo_witness:
  "length ticks250 = 250
   \<and> events_timeline (record_ticks ticks250 init_analytics) =
       map (\<lambda>i. timeline_entry (str (int i)) [] False) [50..<250]
   \<and> length (events_timeline (record_ticks ticks250 init_analytics)) = 200
   \<and> length (events_timeline init_analytics) \<le> 200
   \<and> length (events_timeline (update_analytics ''12:00:00'' [] False init_analytics)) \<le> 200"
  using timeline_capped_fifo [of "''12:00:00''" "[]" False init_analytics ticks250]
  by (simp add: ticks250_def init_analytics_def drop_map)

text \<open>
  C8. No call of \<open>update_analytics\<close>, and so no sequence of calls, lowers the count of
  any key in any of the three ranking counters. Recording a sequence of ticks twice in a
  row from the module's initial counters gives, for every key and each counter, exactly
  twice the count that recording it once gives.
\<close>

theorem counters_monotone_doubling:
  "count (attack_counts_by_ecu A) k \<le> count (attack_counts_by_ecu (record_ticks ts A)) k
   \<and> count (attack_counts_by_type A) k \<le> count (attack_counts_by_type (record_ticks ts A)) k
   \<and> count (attack_counts_by_attacker A) k
       \<le> count (attack_counts_by_attacker (record_ticks ts A)) k
   \<and> count (attack_counts_by_ecu (record_ticks (ts @ ts) init_analytics)) k =
       2 * count (attack_counts_by_ecu (record_ticks ts init_analytics)) k
   \<and> count (attack_counts_by_type (record_ticks (ts @ ts) init_analytics)) k =
       2 * count (attack_counts_by_type (record_ticks ts init_analytics)) k
   \<and> count (attack_counts_by_attacker (record_ticks (ts @ ts) init_analytics)) k =
       2 * count (attack_counts_by_attacker (record_ticks ts init_analytics)) k"
  by (simp add: record_ticks_ecu record_ticks_type record_ticks_attacker)

theorem counters_monotone_doubling_witness:
  "count (attack_counts_by_type (record_ticks ticks0 init_analytics)) ''Safety Violation'' = 1
   \<and> count (attack_counts_by_type (record_ticks (ticks0 @ ticks0) init_analytics))
       ''Safety Violation'' = 2"
proof -
  have one:
    "count (attack_counts_by_type (record_ticks ticks0 init_analytics)) ''Safety Violation'' = 1"
    by (simp add: ticks0_def update_analytics_type evaluate_rules_alerts frames_anomalous
          snap_at_def)
  show ?thesis
    using counters_monotone_doubling [of init_analytics "''Safety Violation''" ticks0] one
    by simp
qed

subsection \<open>Floating point\<close>

lemma rhe_cases: "rhe y = \<lfloor>y\<rfloor> \<or> rhe y = \<lfloor>y\<rfloor> + 1 \<and> 1 / 2 \<le> y - of_int \<lfloor>y\<rfloor>"
  by (auto simp add: rhe_def Let_def)

lemma rhe_of_int [simp]: "rhe (of_int n) = n"
  by (simp add: rhe_def)

lemma rhe_mono: assumes "y \<le> z" shows "rhe y \<le> rhe z"
proof (cases "\<lfloor>y\<rfloor> = \<lfloor>z\<rfloor>")
  case True
  with assms have "y - of_int \<lfloor>y\<rfloor> \<le> z - of_int \<lfloor>z\<rfloor>" by simp
  with True show ?thesis by (auto simp add: rhe_def Let_def)
next
  case False
  with assms have lt: "\<lfloor>y\<rfloor> < \<lfloor>z\<rfloor>" using floor_mono [of y z] by linarith
  have "rhe y \<le> \<lfloor>y\<rfloor> + 1" using rhe_cases [of y] by auto
  moreover have "\<lfloor>z\<rfloor> \<le> rhe z" using rhe_cases [of z] by auto
  ultimately show ?thesis using lt by linarith
qed

lemma rhe_ge: "of_int n \<le> y \<Longrightarrow> n \<le> rhe y"
  using rhe_mono [of "of_int n" y] by simp

lemma rhe_le: "y \<le> of_int n \<Longrightarrow> rhe y \<le> n"
  using rhe_mono [of y "of_int n"] by simp

lemma expo_bounds:
  assumes "0 < x"
  shows "2 powi expo x \<le> x \<and> x < 2 powi (expo x + 1)"
proof (cases "1 \<le> x")
  case True
  define n where "n = \<lfloor>x\<rfloor>"
  have n: "0 < n" using True by (simp add: n_def)
  from bitlen_bounds [OF n] have lo: "2 ^ nat (bitlen n - 1) \<le> n" and hi: "n < 2 ^ nat (bitlen n)"
    by simp_all
  have b: "1 \<le> bitlen n" using n by (simp add: bitlen_alt_def)
  have e: "expo x = bitlen n - 1" using True by (simp add: expo_def n_def)
  have "(2::rat) ^ nat (bitlen n - 1) = of_int (2 ^ nat (bitlen n - 1))" by simp
  also have "\<dots> \<le> of_int n" using lo by (simp only: of_int_le_iff)
  also have "\<dots> \<le> x" by (simp add: n_def)
  finally have 1: "2 powi expo x \<le> x" using b by (simp add: e power_int_def)
  have "n + 1 \<le> 2 ^ nat (bitlen n)" using hi by simp
  then have "(of_int (n + 1) :: rat) \<le> of_int (2 ^ nat (bitlen n))" by (simp only: of_int_le_iff)
  moreover have "x < of_int (n + 1)" unfolding n_def by simp linarith
  ultimately have "x < 2 ^ nat (bitlen n)" by simp
  then have 2: "x < 2 powi (expo x + 1)" using b by (simp add: e power_int_def)
  from 1 2 show ?thesis ..
next
  case False
  with assms have x1: "x < 1" by simp
  define y where "y = 1 / x"
  have y1: "1 < y" using assms x1 by (simp add: y_def)
  define m where "m = \<lceil>y\<rceil> - 1"
  have m: "0 < m" using y1 by (simp add: m_def) 
  from bitlen_bounds [OF m] have lo: "2 ^ nat (bitlen m - 1) \<le> m" and hi: "m < 2 ^ nat (bitlen m)"
    by simp_all
  have b: "1 \<le> bitlen m" using m by (simp add: bitlen_alt_def)
  have e: "expo x = - bitlen m" using False by (simp add: expo_def m_def y_def)
  have "m + 1 \<le> 2 ^ nat (bitlen m)" using hi by simp
  then have "(of_int (m + 1) :: rat) \<le> of_int (2 ^ nat (bitlen m))" by (simp only: of_int_le_iff)
  moreover have "y \<le> of_int (m + 1)" by (simp add: m_def)
  ultimately have yle: "y \<le> 2 ^ nat (bitlen m)" by simp
  have my: "(of_int m :: rat) < y" unfolding m_def by linarith
  have "(of_int (2 ^ nat (bitlen m - 1)) :: rat) \<le> of_int m"
    using lo by (simp only: of_int_le_iff)
  then have "(2::rat) ^ nat (bitlen m - 1) \<le> of_int m" by simp
  then have ygt: "2 ^ nat (bitlen m - 1) < y" using my by (rule le_less_trans)
  have xl: "1 / 2 ^ nat (bitlen m) \<le> x"
    using yle assms by (simp add: y_def field_simps)
  have xu: "x < 1 / 2 ^ nat (bitlen m - 1)"
    using ygt assms by (simp add: y_def field_simps)
  have 1: "2 powi expo x \<le> x"
    using xl b by (simp add: e power_int_def inverse_eq_divide power_divide)
  have "- bitlen m + 1 \<le> 0" "nat (- (- bitlen m + 1)) = nat (bitlen m - 1)"
    using b by simp_all
  then have 2: "x < 2 powi (expo x + 1)"
    using xu x1 by (auto simp add: e power_int_def inverse_eq_divide power_divide)
  from 1 2 show ?thesis ..
qed


lemma expo_mono: assumes "0 < x" "x \<le> y" shows "expo x \<le> expo y"
proof -
  have "2 powi expo x \<le> x" using expo_bounds [OF assms(1)] by simp
  also have "x \<le> y" by fact
  also have "y < 2 powi (expo y + 1)" using expo_bounds [of y] assms by simp
  finally have lt: "(2::rat) powi expo x < 2 powi (expo y + 1)" .
  have "expo x < expo y + 1"
  proof (rule ccontr)
    assume "\<not> expo x < expo y + 1"
    then have "expo y + 1 \<le> expo x" by simp
    then have "(2::rat) powi (expo y + 1) \<le> 2 powi expo x"
      by (rule power_int_increasing) simp
    with lt show False by simp
  qed
  then show ?thesis by simp
qed

lemma fl_pos: "0 < x \<Longrightarrow>
  fl x = of_int (rhe (x / 2 powi (max (expo x) (- 1022) - 52)))
           * 2 powi (max (expo x) (- 1022) - 52)"
  by (simp add: fl_def Let_def)

lemma fl_upper:
  assumes "0 < x"
  shows "fl x \<le> 2 powi (max (expo x) (- 1022) + 1)"
proof -
  let ?e = "max (expo x) (- 1022)"
  let ?q = "(2::rat) powi (?e - 52)"
  have q: "0 < ?q" by simp
  have "x < 2 powi (expo x + 1)" using expo_bounds [OF assms] by simp
  also have "\<dots> \<le> 2 powi (?e + 1)" by (simp add: power_int_increasing)
  finally have "x / ?q < 2 powi (?e + 1) / ?q" using q by (simp add: divide_strict_right_mono)
  also have "\<dots> = 2 powi 53" by (simp add: power_int_diff [symmetric])
  also have "\<dots> = of_int (2 ^ 53)" by (simp add: power_int_def)
  finally have "rhe (x / ?q) \<le> 2 ^ 53" by (intro rhe_le less_imp_le)
  then have "(of_int (rhe (x / ?q)) :: rat) \<le> of_int (2 ^ 53)" by (simp only: of_int_le_iff)
  then have "of_int (rhe (x / ?q)) * ?q \<le> of_int (2 ^ 53) * ?q"
    using q by (intro mult_right_mono) simp_all
  also have "of_int (2 ^ 53) * ?q = 2 powi 53 * ?q" by (simp add: power_int_def)
  also have "\<dots> = 2 powi (?e + 1)"
    by (subst power_int_add [symmetric]) (simp_all add: add.commute)
  finally show ?thesis by (simp only: fl_pos [OF assms])
qed

lemma fl_lower:
  assumes "0 < x" "- 1022 \<le> expo x"
  shows "2 powi expo x \<le> fl x"
proof -
  let ?q = "(2::rat) powi (expo x - 52)"
  have q: "0 < ?q" by simp
  have e: "max (expo x) (- 1022) = expo x" using assms(2) by simp
  have "(of_int (2 ^ 52) :: rat) = 2 powi 52" by (simp add: power_int_def)
  also have "\<dots> = 2 powi expo x / ?q" by (simp add: power_int_diff [symmetric])
  also have "\<dots> \<le> x / ?q" using expo_bounds [OF assms(1)] q by (simp add: divide_right_mono)
  finally have "2 ^ 52 \<le> rhe (x / ?q)" by (rule rhe_ge)
  then have "(of_int (2 ^ 52) :: rat) \<le> of_int (rhe (x / ?q))" by (simp only: of_int_le_iff)
  then have *: "of_int (2 ^ 52) * ?q \<le> of_int (rhe (x / ?q)) * ?q"
    using q by (intro mult_right_mono) simp_all
  have "2 powi expo x = 2 powi 52 * ?q" by (subst power_int_add [symmetric]) simp_all
  also have "\<dots> = of_int (2 ^ 52) * ?q" by (simp add: power_int_def)
  also note *
  finally show ?thesis by (simp only: fl_pos [OF assms(1)] e)
qed

lemma fl_nonneg: "0 \<le> x \<Longrightarrow> 0 \<le> fl x"
proof (cases "x = 0")
  case True then show ?thesis by (simp add: fl_def)
next
  case False
  assume "0 \<le> x"
  with False have x: "0 < x" by simp
  have "0 \<le> rhe (x / 2 powi (max (expo x) (- 1022) - 52))"
    using x by (intro rhe_ge) simp
  then show ?thesis by (simp add: fl_pos [OF x])
qed

lemma fl_mono:
  assumes "0 \<le> x" "x \<le> y"
  shows "fl x \<le> fl y"
proof (cases "x = 0")
  case True
  then show ?thesis using assms fl_nonneg [of y] by (simp add: fl_def)
next
  case False
  with assms have x: "0 < x" and y: "0 < y" by simp_all
  let ?ex = "max (expo x) (- 1022)" and ?ey = "max (expo y) (- 1022)"
  have le: "?ex \<le> ?ey" using expo_mono [OF x assms(2)] by simp
  show ?thesis
  proof (cases "?ex = ?ey")
    case True
    let ?q = "(2::rat) powi (?ey - 52)"
    have q: "0 < ?q" by simp
    have "x / ?q \<le> y / ?q" using assms(2) q by (simp add: divide_right_mono)
    then have "rhe (x / ?q) \<le> rhe (y / ?q)" by (rule rhe_mono)
    then have "(of_int (rhe (x / ?q)) :: rat) \<le> of_int (rhe (y / ?q))"
      by (simp only: of_int_le_iff)
    then have "of_int (rhe (x / ?q)) * ?q \<le> of_int (rhe (y / ?q)) * ?q"
      using q by (intro mult_right_mono) simp_all
    then show ?thesis by (simp add: fl_pos [OF x] fl_pos [OF y] True)
  next
    case False
    with le have lt: "?ex < ?ey" by linarith
    have ey: "- 1022 \<le> expo y" "?ey = expo y" using lt by linarith+
    have "fl x \<le> 2 powi (?ex + 1)" by (rule fl_upper [OF x])
    also have "\<dots> \<le> 2 powi expo y"
    proof (rule power_int_increasing)
      show "?ex + 1 \<le> expo y" using lt ey by linarith
    qed simp
    also have "\<dots> \<le> fl y" by (rule fl_lower [OF y ey(1)])
    finally show ?thesis .
  qed
qed

lemma rhe_ge_half: assumes "of_int n - 1 / 2 < y" shows "n \<le> rhe y"
proof -
  have f: "n - 1 \<le> \<lfloor>y\<rfloor>" using assms by (simp add: le_floor_iff)
  show ?thesis
  proof (cases "n \<le> \<lfloor>y\<rfloor>")
    case True
    then show ?thesis using rhe_cases [of y] by auto
  next
    case False
    with f have "\<lfloor>y\<rfloor> = n - 1" by simp
    with assms have "1 / 2 < y - of_int \<lfloor>y\<rfloor>" by simp
    then show ?thesis using \<open>\<lfloor>y\<rfloor> = n - 1\<close> by (simp add: rhe_def Let_def)
  qed
qed

lemma rhe_le_half: assumes "y < of_int n + 1 / 2" shows "rhe y \<le> n"
proof -
  have f: "\<lfloor>y\<rfloor> \<le> n" using assms by (simp add: floor_le_iff)
  show ?thesis
  proof (cases "\<lfloor>y\<rfloor> = n")
    case True
    with assms have "y - of_int \<lfloor>y\<rfloor> < 1 / 2" by simp
    then show ?thesis using True by (simp add: rhe_def Let_def)
  next
    case False
    with f have "\<lfloor>y\<rfloor> + 1 \<le> n" by simp
    then show ?thesis using rhe_cases [of y] by auto
  qed
qed

lemma lit_mono: "0 \<le> m \<Longrightarrow> m \<le> m' \<Longrightarrow> lit m n \<le> lit m' n"
  unfolding lit_def by (intro fl_mono) (simp_all add: divide_right_mono)

text \<open>Rounding a float to two decimals, when hundred times its value is within a half
  of the integers \<open>lo\<close> and \<open>hi\<close>, gives the literal of some \<open>k / 100\<close> between them.\<close>

lemma round2_range:
  assumes "0 \<le> lo" "of_int lo - 1 / 2 < x * 100" "x * 100 < of_int hi + 1 / 2"
  shows "\<exists>k. lo \<le> k \<and> k \<le> hi \<and> round2 x = lit k 2
           \<and> lit lo 2 \<le> round2 x \<and> round2 x \<le> lit hi 2"
proof -
  let ?k = "rhe (x * 100)"
  have lo: "lo \<le> ?k" using assms(2) by (rule rhe_ge_half)
  have hi: "?k \<le> hi" using assms(3) by (rule rhe_le_half)
  have "lit lo 2 \<le> lit ?k 2" using assms(1) lo by (rule lit_mono)
  moreover have "lit ?k 2 \<le> lit hi 2" using assms(1) lo hi by (intro lit_mono) simp_all
  ultimately show ?thesis using lo hi by (auto simp add: round2_def)
qed

lemma uniform_bounds:
  assumes "0 \<le> a" "a \<le> b" "unit_draw u"
  shows "fl a \<le> uniform a b u \<and> uniform a b u \<le> fl (a + fl (fl (b - a)))"
proof -
  let ?c = "fl (b - a)"
  have c: "0 \<le> ?c" using assms(2) by (intro fl_nonneg) simp
  have u: "0 \<le> u" "u \<le> 1" using assms(3) by (simp_all add: unit_draw_def)
  have p0: "0 \<le> ?c * u" using c u by simp
  have p1: "?c * u \<le> ?c" using c u by (simp add: mult_left_le)
  have f0: "0 \<le> fl (?c * u)" using p0 by (rule fl_nonneg)
  have f1: "fl (?c * u) \<le> fl ?c" using p0 p1 by (rule fl_mono)
  have "fl a \<le> fl (a + fl (?c * u))" using assms(1) f0 by (intro fl_mono) simp_all
  moreover have "fl (a + fl (?c * u)) \<le> fl (a + fl ?c)"
    using assms(1) f0 f1 by (intro fl_mono) simp_all
  ultimately show ?thesis by (simp add: uniform_def)
qed

lemma round2_uniform_range:
  assumes "unit_draw u" and "0 \<le> a" "a \<le> b" and "0 \<le> lo"
    and "of_int lo - 1 / 2 < fl a * 100"
    and "fl (a + fl (fl (b - a))) * 100 < of_int hi + 1 / 2"
  shows "\<exists>k. lo \<le> k \<and> k \<le> hi \<and> round2 (uniform a b u) = lit k 2
           \<and> lit lo 2 \<le> round2 (uniform a b u) \<and> round2 (uniform a b u) \<le> lit hi 2"
proof (rule round2_range [OF assms(4)])
  from uniform_bounds [OF assms(2,3,1)]
  have b: "fl a \<le> uniform a b u" "uniform a b u \<le> fl (a + fl (fl (b - a)))" by simp_all
  show "of_int lo - 1 / 2 < uniform a b u * 100" using assms(5) b(1) by simp
  show "uniform a b u * 100 < of_int hi + 1 / 2" using assms(6) b(2) by simp
qed

subsection \<open>The float literals and ranges of the program\<close>

lemma lit_values:
  "lit 25 2 = 1 / 4" "lit 5 1 = 1 / 2" "lit 10 1 = 1" "lit 0 2 = 0"
  "lit 100 2 = lit 10 1" "lit 20 2 = lit 2 1" "lit 50 2 = lit 5 1" "lit 80 2 = lit 8 1"
  by code_simp+

lemma lit_compare:
  "lit 35 2 < 1 / 2" "lit 3 2 < 1 / 2" "lit 1 1 < 1 / 2"
  "0 \<le> lit 85 2" "lit 85 2 \<le> lit 10 1"
  "0 \<le> lit 2 1" "lit 2 1 \<le> lit 5 1"
  "0 \<le> lit 8 1" "lit 8 1 \<le> lit 10 1"
  by code_simp+

lemma range_facts:
  "85 - 1 / 2 < fl (lit 85 2) * 100"
  "fl (lit 85 2 + fl (fl (lit 10 1 - lit 85 2))) * 100 < 100 + 1 / 2"
  "20 - 1 / 2 < fl (lit 2 1) * 100"
  "fl (lit 2 1 + fl (fl (lit 5 1 - lit 2 1))) * 100 < 50 + 1 / 2"
  "80 - 1 / 2 < fl (lit 8 1) * 100"
  "fl (lit 8 1 + fl (fl (lit 10 1 - lit 8 1))) * 100 < 100 + 1 / 2"
  "fl (lit 2 1) * 100 < 20 + 1 / 2"
  by code_simp+

lemma force_score_range:
  assumes "unit_draw u"
  shows "\<exists>k. 85 \<le> k \<and> k \<le> 100 \<and> round2 (uniform (lit 85 2) (lit 10 1) u) = lit k 2
           \<and> lit 85 2 \<le> round2 (uniform (lit 85 2) (lit 10 1) u)
           \<and> round2 (uniform (lit 85 2) (lit 10 1) u) \<le> lit 10 1"
  using round2_uniform_range [OF assms, of "lit 85 2" "lit 10 1" 85 100]
    lit_compare range_facts
  by (simp add: lit_values)

lemma force_health_range:
  assumes "unit_draw u"
  shows "\<exists>k. 20 \<le> k \<and> k \<le> 50 \<and> round2 (uniform (lit 2 1) (lit 5 1) u) = lit k 2
           \<and> lit 2 1 \<le> round2 (uniform (lit 2 1) (lit 5 1) u)
           \<and> round2 (uniform (lit 2 1) (lit 5 1) u) \<le> lit 5 1"
  using round2_uniform_range [OF assms, of "lit 2 1" "lit 5 1" 20 50]
    lit_compare range_facts
  by (simp add: lit_values)

lemma health_range:
  assumes "unit_draw u"
  shows "\<exists>k. 80 \<le> k \<and> k \<le> 100 \<and> round2 (uniform (lit 8 1) (lit 10 1) u) = lit k 2
           \<and> lit 8 1 \<le> round2 (uniform (lit 8 1) (lit 10 1) u)
           \<and> round2 (uniform (lit 8 1) (lit 10 1) u) \<le> lit 10 1"
  using round2_uniform_range [OF assms, of "lit 8 1" "lit 10 1" 80 100]
    lit_compare range_facts
  by (simp add: lit_values)

lemma base_score_range:
  assumes "unit_draw u"
  shows "\<exists>k. 0 \<le> k \<and> k \<le> 20 \<and> round2 (fl (u * lit 2 1)) = lit k 2
           \<and> 0 \<le> round2 (fl (u * lit 2 1)) \<and> round2 (fl (u * lit 2 1)) \<le> lit 2 1"
proof -
  have u: "0 \<le> u" "u \<le> 1" using assms by (simp_all add: unit_draw_def)
  have c: "0 \<le> lit 2 1" by (rule lit_compare)
  have p0: "0 \<le> u * lit 2 1" using u c by simp
  have p1: "u * lit 2 1 \<le> lit 2 1" using u c by (simp add: mult_left_le_one_le)
  have x0: "0 \<le> fl (u * lit 2 1)" using p0 by (rule fl_nonneg)
  have x1: "fl (u * lit 2 1) \<le> fl (lit 2 1)" using p0 p1 by (rule fl_mono)
  have "of_int 0 - 1 / 2 < fl (u * lit 2 1) * 100" using x0 by simp
  moreover have "fl (u * lit 2 1) * 100 < of_int 20 + 1 / 2"
    using x1 range_facts(7) by simp
  ultimately show ?thesis
    using round2_range [of 0 "fl (u * lit 2 1)" 20] by (simp add: lit_values)
qed

subsection \<open>The telemetry generator\<close>

lemma fold_health:
  "fold (\<lambda>n h. h(n \<mapsto> f n)) ns h0 k = (if k \<in> set ns then Some (f k) else h0 k)"
  by (induction ns arbitrary: h0) auto

lemma force_loop_fst:
  "fst (force_loop d cs h) = map (\<lambda>c. c\<lparr>status := ''compromised''\<rparr>) cs"
  by (induction cs arbitrary: h) (simp_all add: Let_def split_beta)

lemma force_loop_snd:
  "snd (force_loop d cs h) n =
     (if n \<in> name ` set cs then Some (round2 (uniform (lit 2 1) (lit 5 1) (r_force_health d n)))
      else h n)"
  by (induction cs arbitrary: h) (auto simp add: Let_def split_beta)

lemma warn_loop_fst:
  "fst (warn_loop d cs h) =
     map (\<lambda>c. if name c \<in> set [''Engine ECU'', ''Brake ECU'', ''Telematics'']
              then c\<lparr>status := ''warning''\<rparr> else c) cs"
  by (induction cs arbitrary: h) (simp_all add: Let_def split_beta)

lemma warn_loop_snd:
  "snd (warn_loop d cs h) n =
     (if n \<in> name ` set cs \<and> n \<in> set [''Engine ECU'', ''Brake ECU'', ''Telematics'']
      then Some (round2 (uniform (lit 3 1) (lit 7 1) (r_rule_health d n)))
      else h n)"
  by (induction cs arbitrary: h) (auto simp add: Let_def split_beta)

lemma warn_loop_names: "name ` set (fst (warn_loop d cs h)) = name ` set cs"
  by (induction cs arbitrary: h) (simp_all add: Let_def split_beta)

text \<open>The fields of the returned snapshot.\<close>

lemma gt_fields:
  "speed (fst (generate_telemetry d e s)) = r_speed d"
  "brake_status (fst (generate_telemetry d e s)) =
     (if r_brake d < lit 25 2 then ''ON'' else ''OFF'')"
  "can_packets (fst (generate_telemetry d e s)) =
     generate_can_packets d e (FORCE_ATTACK s \<or> r_hint d < lit 1 1)"
  "forced_attack (fst (generate_telemetry d e s)) = FORCE_ATTACK s"
  "timestamp (fst (generate_telemetry d e s)) = now_snapshot e"
  by (simp_all add: generate_telemetry_def Let_def split_beta)

lemma gt_evaluate_rules:
  "evaluate_rules d (fst (generate_telemetry d e s)) prev pk =
   evaluate_rules d (snap_at (r_speed d) (if r_brake d < lit 25 2 then ''ON'' else ''OFF''))
     prev pk"
  by (rule evaluate_rules_cong) (simp_all add: gt_fields snap_at_def)

lemma gt_alerts:
  "security_alerts (fst (generate_telemetry d e s)) =
     snd (evaluate_rules d (fst (generate_telemetry d e s)) (LAST_SNAPSHOT s)
            (can_packets (fst (generate_telemetry d e s))))"
  unfolding gt_evaluate_rules gt_fields
  by (simp add: generate_telemetry_def Let_def split_beta evaluate_rules_record)

lemma gt_active:
  "attack_active (fst (generate_telemetry d e s)) \<longleftrightarrow>
     fst (evaluate_rules d (fst (generate_telemetry d e s)) (LAST_SNAPSHOT s)
            (can_packets (fst (generate_telemetry d e s))))
     \<or> FORCE_ATTACK s"
  unfolding gt_evaluate_rules gt_fields
  by (simp add: generate_telemetry_def Let_def split_beta evaluate_rules_record)

lemma gt_score:
  "can_anomaly_score (fst (generate_telemetry d e s)) =
     (if FORCE_ATTACK s then round2 (uniform (lit 85 2) (lit 10 1) (r_force_score d))
      else round2 (fl (r_base d * lit 2 1)))"
  by (simp add: generate_telemetry_def Let_def split_beta)

lemma gt_heatmap:
  "heatmap (fst (generate_telemetry d e s)) =
     map (\<lambda>n. \<lparr>name = n,
                status =
                  (if FORCE_ATTACK s then ''compromised''
                   else if attack_active (fst (generate_telemetry d e s))
                           \<and> n \<in> set [''Engine ECU'', ''Brake ECU'', ''Telematics'']
                        then ''warning'' else ''ok'')\<rparr>)
       ECU_NAMES"
  unfolding gt_active gt_evaluate_rules gt_fields
  by (simp add: generate_telemetry_def Let_def split_beta evaluate_rules_record
        force_loop_fst warn_loop_fst)

lemma gt_health:
  "ecu_health (fst (generate_telemetry d e s)) n =
     (if n \<in> set ECU_NAMES
      then Some (if FORCE_ATTACK s
                 then round2 (uniform (lit 2 1) (lit 5 1) (r_force_health d n))
                 else if attack_active (fst (generate_telemetry d e s))
                         \<and> n \<in> set [''Engine ECU'', ''Brake ECU'', ''Telematics'']
                      then round2 (uniform (lit 3 1) (lit 7 1) (r_rule_health d n))
                      else round2 (uniform (lit 8 1) (lit 10 1) (r_health d n)))
      else None)"
  unfolding gt_active gt_evaluate_rules gt_fields
  by (simp add: generate_telemetry_def Let_def split_beta evaluate_rules_record
        force_loop_snd warn_loop_snd warn_loop_names fold_health image_image)

lemma gt_analytics:
  "ANALYTICS (snd (generate_telemetry d e s)) =
     update_analytics (now_timeline e) (security_alerts (fst (generate_telemetry d e s)))
       (attack_active (fst (generate_telemetry d e s))) (ANALYTICS s)"
  by (simp add: generate_telemetry_def Let_def split_beta)

text \<open>
  C1. The snapshot returned by \<open>generate_telemetry\<close> has \<open>attack_active\<close> true exactly
  when the flag returned by \<open>evaluate_rules\<close> for this tick is true or \<open>FORCE_ATTACK\<close>
  is on. The flag is true exactly when at least one rule fired, that is, when the alert
  list of the snapshot is not empty, that is, when one of the three rule conditions holds
  of the tick's speed, brake status, frames and previous snapshot.
\<close>

theorem attack_active_iff:
  "let snap = fst (generate_telemetry d e s);
       fired = fst (evaluate_rules d snap (LAST_SNAPSHOT s) (can_packets snap))
   in (attack_active snap \<longleftrightarrow> fired \<or> FORCE_ATTACK s)
      \<and> forced_attack snap = FORCE_ATTACK s
      \<and> (fired \<longleftrightarrow> security_alerts snap \<noteq> [])
      \<and> (fired \<longleftrightarrow>
           8 \<le> length (filter anomaly (can_packets snap))
           \<or> (\<exists>p. LAST_SNAPSHOT s = Some p \<and> 60 < \<bar>speed snap - speed p\<bar>)
           \<or> (brake_status snap = ''ON'' \<and> 120 < speed snap))"
proof -
  let ?snap = "fst (generate_telemetry d e s)"
  let ?fired = "fst (evaluate_rules d ?snap (LAST_SNAPSHOT s) (can_packets ?snap))"
  have a: "attack_active ?snap \<longleftrightarrow> ?fired \<or> FORCE_ATTACK s" by (rule gt_active)
  have b: "forced_attack ?snap = FORCE_ATTACK s" by (rule gt_fields)
  have c: "?fired \<longleftrightarrow> security_alerts ?snap \<noteq> []"
    by (subst gt_alerts) (rule evaluate_rules_fired_alerts)
  have d: "?fired \<longleftrightarrow>
           8 \<le> length (filter anomaly (can_packets ?snap))
           \<or> (\<exists>p. LAST_SNAPSHOT s = Some p \<and> 60 < \<bar>speed ?snap - speed p\<bar>)
           \<or> (brake_status ?snap = ''ON'' \<and> 120 < speed ?snap)"
    by (rule evaluate_rules_fired)
  from a b c d show ?thesis unfolding Let_def by blast
qed

theorem attack_active_iff_witness:
  "attack_active (fst (generate_telemetry draws0 env0 init_state))
   \<and> \<not> attack_active (fst (generate_telemetry draws_quiet env0 init_state))
   \<and> attack_active (fst (generate_telemetry draws_quiet env0 forced_state))"
  using attack_active_iff [of draws0 env0 init_state]
    attack_active_iff [of draws_quiet env0 init_state]
    attack_active_iff [of draws_quiet env0 forced_state]
  using lit_compare(1-3)
  by (simp add: Let_def gt_fields evaluate_rules_fired generate_can_packets_def upt_values
        draws0_def draws_quiet_def init_state_def forced_state_def lit_values)

text \<open>
  C4. When \<open>FORCE_ATTACK\<close> is on and the draws of \<open>random.random()\<close> lie in \<open>[0, 1)\<close>,
  the returned snapshot has \<open>attack_active\<close> true, a heatmap with one entry per ECU, all
  of status \<open>compromised\<close>, a CAN anomaly score between the floats \<open>0.85\<close> and \<open>1.0\<close>
  and a health value between the floats \<open>0.2\<close> and \<open>0.5\<close> for every ECU and for no
  other key. Score and health are the values computed in the forced branch, whatever the
  rules did before: the score is the float of some \<open>k / 100\<close> with \<open>85 \<le> k \<le> 100\<close>,
  each health the float of some \<open>k / 100\<close> with \<open>20 \<le> k \<le> 50\<close>.
\<close>

theorem force_attack_override:
  assumes "FORCE_ATTACK s"
    and "unit_draw (r_force_score d)"
    and "\<forall>n \<in> set ECU_NAMES. unit_draw (r_force_health d n)"
  shows
    "let snap = fst (generate_telemetry d e s)
     in attack_active snap
        \<and> map name (heatmap snap) = ECU_NAMES
        \<and> (\<forall>c \<in> set (heatmap snap). status c = ''compromised'')
        \<and> can_anomaly_score snap = round2 (uniform (lit 85 2) (lit 10 1) (r_force_score d))
        \<and> (\<exists>k. 85 \<le> k \<and> k \<le> 100 \<and> can_anomaly_score snap = lit k 2)
        \<and> lit 85 2 \<le> can_anomaly_score snap \<and> can_anomaly_score snap \<le> lit 10 1
        \<and> dom (ecu_health snap) = set ECU_NAMES
        \<and> (\<forall>n \<in> set ECU_NAMES.
              \<exists>h k. ecu_health snap n = Some h
                \<and> h = round2 (uniform (lit 2 1) (lit 5 1) (r_force_health d n))
                \<and> 20 \<le> k \<and> k \<le> 50 \<and> h = lit k 2
                \<and> lit 2 1 \<le> h \<and> h \<le> lit 5 1)"
proof -
  let ?snap = "fst (generate_telemetry d e s)"
  have active: "attack_active ?snap" using assms(1) by (simp add: gt_active)
  have names: "map name (heatmap ?snap) = ECU_NAMES"
    by (simp add: gt_heatmap comp_def)
  have stat: "\<forall>c \<in> set (heatmap ?snap). status c = ''compromised''"
    using assms(1) by (auto simp add: gt_heatmap)
  have score:
    "can_anomaly_score ?snap = round2 (uniform (lit 85 2) (lit 10 1) (r_force_score d))"
    using assms(1) by (simp add: gt_score)
  have range: "(\<exists>k. 85 \<le> k \<and> k \<le> 100 \<and> can_anomaly_score ?snap = lit k 2)
      \<and> lit 85 2 \<le> can_anomaly_score ?snap \<and> can_anomaly_score ?snap \<le> lit 10 1"
    unfolding score using force_score_range [OF assms(2)] by blast
  have dom: "dom (ecu_health ?snap) = set ECU_NAMES"
    by (auto simp add: dom_def gt_health split: if_splits)
  have health: "\<forall>n \<in> set ECU_NAMES.
      \<exists>h k. ecu_health ?snap n = Some h
        \<and> h = round2 (uniform (lit 2 1) (lit 5 1) (r_force_health d n))
        \<and> 20 \<le> k \<and> k \<le> 50 \<and> h = lit k 2
        \<and> lit 2 1 \<le> h \<and> h \<le> lit 5 1"
  proof
    fix n assume n: "n \<in> set ECU_NAMES"
    with assms(3) have "unit_draw (r_force_health d n)" by blast
    from force_health_range [OF this] obtain k where
      "20 \<le> k" "k \<le> 50"
      "round2 (uniform (lit 2 1) (lit 5 1) (r_force_health d n)) = lit k 2"
      "lit 2 1 \<le> round2 (uniform (lit 2 1) (lit 5 1) (r_force_health d n))"
      "round2 (uniform (lit 2 1) (lit 5 1) (r_force_health d n)) \<le> lit 5 1"
      by blast
    moreover have "ecu_health ?snap n =
        Some (round2 (uniform (lit 2 1) (lit 5 1) (r_force_health d n)))"
      using n assms(1) by (simp add: gt_health)
    ultimately show "\<exists>h k. ecu_health ?snap n = Some h
        \<and> h = round2 (uniform (lit 2 1) (lit 5 1) (r_force_health d n))
        \<and> 20 \<le> k \<and> k \<le> 50 \<and> h = lit k 2
        \<and> lit 2 1 \<le> h \<and> h \<le> lit 5 1"
      by blast
  qed
  from active names stat score range dom health show ?thesis
    unfolding Let_def by blast
qed

theorem force_attack_override_witness:
  "FORCE_ATTACK forced_state
   \<and> unit_draw (r_force_score draws0)
   \<and> list_all (\<lambda>n. unit_draw (r_force_health draws0 n)) ECU_NAMES
   \<and> security_alerts (fst (generate_telemetry draws0 env0 forced_state)) \<noteq> []
   \<and> attack_active (fst (generate_telemetry draws0 env0 forced_state))
   \<and> map name (heatmap (fst (generate_telemetry draws0 env0 forced_state))) = ECU_NAMES
   \<and> list_all (\<lambda>c. status c = ''compromised'')
       (heatmap (fst (generate_telemetry draws0 env0 forced_state)))
   \<and> can_anomaly_score (fst (generate_telemetry draws0 env0 forced_state)) = lit 93 2
   \<and> lit 85 2 \<le> can_anomaly_score (fst (generate_telemetry draws0 env0 forced_state))
   \<and> can_anomaly_score (fst (generate_telemetry draws0 env0 forced_state)) \<le> lit 10 1
   \<and> list_all
       (\<lambda>n. case ecu_health (fst (generate_telemetry draws0 env0 forced_state)) n of
               None \<Rightarrow> False
             | Some h \<Rightarrow> lit 2 1 \<le> h \<and> h \<le> lit 5 1)
       ECU_NAMES"
proof -
  have hyp: "FORCE_ATTACK forced_state" "unit_draw (r_force_score draws0)"
    "\<forall>n \<in> set ECU_NAMES. unit_draw (r_force_health draws0 n)"
    by (simp_all add: forced_state_def init_state_def draws0_def unit_draw_def)
  have fired: "security_alerts (fst (generate_telemetry draws0 env0 forced_state)) \<noteq> []"
    unfolding gt_alerts evaluate_rules_alerts gt_fields
    by (simp add: draws0_def lit_values)
  have "round2 (uniform (lit 85 2) (lit 10 1) (1 / 2)) = lit 93 2" by code_simp
  then have val: "round2 (uniform (lit 85 2) (lit 10 1) (r_force_score draws0)) = lit 93 2"
    by (simp add: draws0_def)
  from force_attack_override [OF hyp, of env0] hyp fired val show ?thesis
    unfolding Let_def list_all_iff by fastforce
qed

text \<open>
  C9. When \<open>FORCE_ATTACK\<close> is off and the draws of \<open>random.random()\<close> lie in \<open>[0, 1)\<close>,
  the CAN anomaly score of the returned snapshot is the rounded base draw and lies
  between \<open>0\<close> and the float \<open>0.2\<close>; every heatmap entry whose status is not \<open>ok\<close>
  belongs to Engine ECU, Brake ECU or Telematics; and Steering ECU, Infotainment and
  ADAS ECU each have a heatmap entry of status \<open>ok\<close> and the health value sampled at the
  start, between the floats \<open>0.8\<close> and \<open>1.0\<close>. This holds whether or not a rule fired.
\<close>

theorem unforced_tick_frame:
  assumes "\<not> FORCE_ATTACK s"
    and "unit_draw (r_base d)"
    and "\<forall>n \<in> set [''Steering ECU'', ''Infotainment'', ''ADAS ECU'']. unit_draw (r_health d n)"
  shows
    "let snap = fst (generate_telemetry d e s)
     in can_anomaly_score snap = round2 (fl (r_base d * lit 2 1))
        \<and> (\<exists>k. 0 \<le> k \<and> k \<le> 20 \<and> can_anomaly_score snap = lit k 2)
        \<and> 0 \<le> can_anomaly_score snap \<and> can_anomaly_score snap \<le> lit 2 1
        \<and> map name (heatmap snap) = ECU_NAMES
        \<and> (\<forall>c \<in> set (heatmap snap).
              status c \<noteq> ''ok'' \<longrightarrow>
              name c \<in> set [''Engine ECU'', ''Brake ECU'', ''Telematics''])
        \<and> (\<forall>n \<in> set [''Steering ECU'', ''Infotainment'', ''ADAS ECU''].
              \<lparr>name = n, status = ''ok''\<rparr> \<in> set (heatmap snap)
              \<and> (\<forall>c \<in> set (heatmap snap). name c = n \<longrightarrow> status c = ''ok'')
              \<and> ecu_health snap n =
                  Some (round2 (uniform (lit 8 1) (lit 10 1) (r_health d n)))
              \<and> (\<exists>k. 80 \<le> k \<and> k \<le> 100
                    \<and> round2 (uniform (lit 8 1) (lit 10 1) (r_health d n)) = lit k 2)
              \<and> lit 8 1 \<le> round2 (uniform (lit 8 1) (lit 10 1) (r_health d n))
              \<and> round2 (uniform (lit 8 1) (lit 10 1) (r_health d n)) \<le> lit 10 1)"
proof -
  let ?snap = "fst (generate_telemetry d e s)"
  have score: "can_anomaly_score ?snap = round2 (fl (r_base d * lit 2 1))"
    using assms(1) by (simp add: gt_score)
  have range: "(\<exists>k. 0 \<le> k \<and> k \<le> 20 \<and> can_anomaly_score ?snap = lit k 2)
      \<and> 0 \<le> can_anomaly_score ?snap \<and> can_anomaly_score ?snap \<le> lit 2 1"
    unfolding score using base_score_range [OF assms(2)] by blast
  have names: "map name (heatmap ?snap) = ECU_NAMES"
    by (simp add: gt_heatmap comp_def)
  have only: "\<forall>c \<in> set (heatmap ?snap).
      status c \<noteq> ''ok'' \<longrightarrow> name c \<in> set [''Engine ECU'', ''Brake ECU'', ''Telematics'']"
    using assms(1) by (auto simp add: gt_heatmap split: if_splits)
  have others: "\<forall>n \<in> set [''Steering ECU'', ''Infotainment'', ''ADAS ECU''].
      \<lparr>name = n, status = ''ok''\<rparr> \<in> set (heatmap ?snap)
      \<and> (\<forall>c \<in> set (heatmap ?snap). name c = n \<longrightarrow> status c = ''ok'')
      \<and> ecu_health ?snap n = Some (round2 (uniform (lit 8 1) (lit 10 1) (r_health d n)))
      \<and> (\<exists>k. 80 \<le> k \<and> k \<le> 100
            \<and> round2 (uniform (lit 8 1) (lit 10 1) (r_health d n)) = lit k 2)
      \<and> lit 8 1 \<le> round2 (uniform (lit 8 1) (lit 10 1) (r_health d n))
      \<and> round2 (uniform (lit 8 1) (lit 10 1) (r_health d n)) \<le> lit 10 1"
  proof
    fix n assume n: "n \<in> set [''Steering ECU'', ''Infotainment'', ''ADAS ECU'']"
    then have in_ecus: "n \<in> set ECU_NAMES"
      and not_warned: "n \<notin> set [''Engine ECU'', ''Brake ECU'', ''Telematics'']"
      by (auto simp add: ECU_NAMES_def)
    have cell: "\<lparr>name = n, status = ''ok''\<rparr> \<in> set (heatmap ?snap)"
      unfolding gt_heatmap set_map using in_ecus not_warned assms(1)
      by (intro image_eqI [where x = n]) simp_all
    have all_ok: "\<forall>c \<in> set (heatmap ?snap). name c = n \<longrightarrow> status c = ''ok''"
      using not_warned assms(1) by (auto simp add: gt_heatmap)
    have h: "ecu_health ?snap n = Some (round2 (uniform (lit 8 1) (lit 10 1) (r_health d n)))"
      using in_ecus not_warned assms(1) by (simp add: gt_health)
    from assms(3) n have "unit_draw (r_health d n)" by blast
    from health_range [OF this] cell all_ok h
    show "\<lparr>name = n, status = ''ok''\<rparr> \<in> set (heatmap ?snap)
      \<and> (\<forall>c \<in> set (heatmap ?snap). name c = n \<longrightarrow> status c = ''ok'')
      \<and> ecu_health ?snap n = Some (round2 (uniform (lit 8 1) (lit 10 1) (r_health d n)))
      \<and> (\<exists>k. 80 \<le> k \<and> k \<le> 100
            \<and> round2 (uniform (lit 8 1) (lit 10 1) (r_health d n)) = lit k 2)
      \<and> lit 8 1 \<le> round2 (uniform (lit 8 1) (lit 10 1) (r_health d n))
      \<and> round2 (uniform (lit 8 1) (lit 10 1) (r_health d n)) \<le> lit 10 1"
      by blast
  qed
  from score range names only others show ?thesis
    unfolding Let_def by blast
qed

theorem unforced_tick_frame_witness:
  "\<not> FORCE_ATTACK init_state
   \<and> unit_draw (r_base draws0)
   \<and> list_all (\<lambda>n. unit_draw (r_health draws0 n))
       [''Steering ECU'', ''Infotainment'', ''ADAS ECU'']
   \<and> attack_active (fst (generate_telemetry draws0 env0 init_state))
   \<and> can_anomaly_score (fst (generate_telemetry draws0 env0 init_state)) = lit 3 2
   \<and> \<lparr>name = ''Steering ECU'', status = ''ok''\<rparr>
       \<in> set (heatmap (fst (generate_telemetry draws0 env0 init_state)))
   \<and> ecu_health (fst (generate_telemetry draws0 env0 init_state)) ''Steering ECU''
       = Some (lit 83 2)
   \<and> status (heatmap (fst (generate_telemetry draws0 env0 init_state)) ! 0) = ''warning''"
proof -
  have hyp: "\<not> FORCE_ATTACK init_state" "unit_draw (r_base draws0)"
    "\<forall>n \<in> set [''Steering ECU'', ''Infotainment'', ''ADAS ECU'']. unit_draw (r_health draws0 n)"
    by (simp_all add: init_state_def draws0_def unit_draw_def)
  have fired: "attack_active (fst (generate_telemetry draws0 env0 init_state))"
    unfolding gt_active evaluate_rules_fired gt_fields
    by (simp add: draws0_def lit_values)
  have "round2 (fl (1 / 8 * lit 2 1)) = lit 3 2"
    and "round2 (uniform (lit 8 1) (lit 10 1) (1 / 8)) = lit 83 2"
    by code_simp+
  then have vals: "round2 (fl (r_base draws0 * lit 2 1)) = lit 3 2"
    "round2 (uniform (lit 8 1) (lit 10 1) (r_health draws0 ''Steering ECU'')) = lit 83 2"
    by (simp_all add: draws0_def)
  have first:
    "status (heatmap (fst (generate_telemetry draws0 env0 init_state)) ! 0) = ''warning''"
    using fired hyp(1) by (simp add: gt_heatmap ECU_NAMES_def)
  from unforced_tick_frame [OF hyp, of env0] hyp fired first vals show ?thesis
    unfolding Let_def by simp
qed

subsection \<open>Alerts of a tick in the by-ECU ranking\<close>

text \<open>
  C10. Every alert returned by \<open>evaluate_rules\<close> has a source in \<open>ECU_NAMES\<close>. Hence
  the loop body of \<open>update_analytics\<close> increments the by-ECU counter for each of them,
  and after \<open>update_analytics\<close> the by-ECU count of every key has grown by the number of
  returned alerts with that source. For a tick: every alert of the snapshot that
  \<open>generate_telemetry\<close> returns has a source in \<open>ECU_NAMES\<close>, and in the state it
  returns the by-ECU count of every key has grown by the number of the snapshot's alerts
  with that source.
\<close>

theorem rule_alert_sources_counted:
  "(\<forall>a \<in> set (snd (evaluate_rules d snap prev pkts)).
       source a \<in> set ECU_NAMES
       \<and> (\<forall>B. attack_counts_by_ecu (count_alert a B) =
                incr (attack_counts_by_ecu B) (source a)))
   \<and> count (attack_counts_by_ecu
              (update_analytics now (snd (evaluate_rules d snap prev pkts)) active A)) k =
       count (attack_counts_by_ecu A) k
       + int (length (filter (\<lambda>a. source a = k) (snd (evaluate_rules d snap prev pkts))))
   \<and> (\<forall>a \<in> set (security_alerts (fst (generate_telemetry d e s))).
         source a \<in> set ECU_NAMES)
   \<and> count (attack_counts_by_ecu (ANALYTICS (snd (generate_telemetry d e s)))) k =
       count (attack_counts_by_ecu (ANALYTICS s)) k
       + int (length (filter (\<lambda>a. source a = k)
                        (security_alerts (fst (generate_telemetry d e s)))))"
proof -
  have src: "\<forall>a \<in> set (snd (evaluate_rules d' snap' prev' pkts')). source a \<in> set ECU_NAMES"
    for d' snap' prev' pkts'
    unfolding evaluate_rules_alerts by (cases prev') (auto simp add: ECU_NAMES_def)
  have flt: "filter (\<lambda>a. source a = k \<and> source a \<in> set ECU_NAMES)
               (snd (evaluate_rules d' snap' prev' pkts')) =
             filter (\<lambda>a. source a = k) (snd (evaluate_rules d' snap' prev' pkts'))"
    for d' snap' prev' pkts'
    using src [of d' snap' prev' pkts'] by (intro filter_cong) auto
  have call: "(\<forall>a \<in> set (snd (evaluate_rules d snap prev pkts)).
       source a \<in> set ECU_NAMES
       \<and> (\<forall>B. attack_counts_by_ecu (count_alert a B) =
                incr (attack_counts_by_ecu B) (source a)))
   \<and> count (attack_counts_by_ecu
              (update_analytics now (snd (evaluate_rules d snap prev pkts)) active A)) k =
       count (attack_counts_by_ecu A) k
       + int (length (filter (\<lambda>a. source a = k) (snd (evaluate_rules d snap prev pkts))))"
    using src [of d snap prev pkts] flt [of d snap prev pkts]
    by (simp add: update_analytics_ecu count_alert_fields)
  have tick_src: "\<forall>a \<in> set (security_alerts (fst (generate_telemetry d e s))).
      source a \<in> set ECU_NAMES"
    by (subst gt_alerts) (rule src)
  have tick_count:
    "count (attack_counts_by_ecu (ANALYTICS (snd (generate_telemetry d e s)))) k =
       count (attack_counts_by_ecu (ANALYTICS s)) k
       + int (length (filter (\<lambda>a. source a = k)
                        (security_alerts (fst (generate_telemetry d e s)))))"
    unfolding gt_analytics update_analytics_ecu
    by (subst (1 2) gt_alerts) (simp only: flt)
  from call tick_src tick_count show ?thesis by blast
qed

theorem rule_alert_sources_counted_witness:
  "map source (snd (evaluate_rules draws0 (snap_at 121 ''ON'') None (frames 8))) =
     [''Telematics'', ''Brake ECU'']
   \<and> count (attack_counts_by_ecu
              (update_analytics ''12:00:00''
                 (snd (evaluate_rules draws0 (snap_at 121 ''ON'') None (frames 8))) True
                 init_analytics)) ''Brake ECU'' = 1
   \<and> map source (security_alerts (fst (generate_telemetry draws0 env0 init_state))) =
       [''Brake ECU'']
   \<and> count (attack_counts_by_ecu (ANALYTICS (snd (generate_telemetry draws0 env0 init_state))))
       ''Brake ECU'' = 1"
proof -
  have al: "map source (snd (evaluate_rules draws0 (snap_at 121 ''ON'') None (frames 8))) =
     [''Telematics'', ''Brake ECU'']"
    by (simp add: evaluate_rules_alerts frames_anomalous snap_at_def)
  have n1: "length (filter (\<lambda>a. source a = ''Brake ECU'')
          (snd (evaluate_rules draws0 (snap_at 121 ''ON'') None (frames 8)))) = 1"
    by (simp add: evaluate_rules_alerts frames_anomalous snap_at_def)
  have tick: "security_alerts (fst (generate_telemetry draws0 env0 init_state)) =
      [brake_alert draws0 130]"
    using lit_compare(1-3)
    unfolding gt_alerts evaluate_rules_alerts gt_fields
    by (simp add: generate_can_packets_def upt_values draws0_def init_state_def lit_values)
  have st: "count (attack_counts_by_ecu (ANALYTICS init_state)) ''Brake ECU'' = 0"
    by (simp add: init_state_def)
  from al n1 tick st show ?thesis
    using rule_alert_sources_counted
      [of draws0 "snap_at 121 ''ON''" None "frames 8" "''12:00:00''" True init_analytics
        "''Brake ECU''" env0 init_state]
    by simp
qed

subsection \<open>The force-attack route\<close>

text \<open>On a JSON object the handler never raises: the flag becomes true exactly when
  the value under \<open>mode\<close> is the string \<open>on\<close>, and the response reports the flag.\<close>

lemma force_attack_object:
  "force_attack (JObj kvs) s =
     Inr (JObj [(''forced_attack'', JBool (dict_get kvs ''mode'' = JStr ''on''))],
          s\<lparr>FORCE_ATTACK := (dict_get kvs ''mode'' = JStr ''on'')\<rparr>)"
  by (simp add: force_attack_def Let_def)

text \<open>
  C7. The claim asks that input which is not an on/off indicator, a malformed request
  body included, be treated as off without an error. The handler does so for a JSON
  object whose \<open>mode\<close> is missing or not \<open>on\<close>, but on a body that is valid JSON and not
  an object, here the empty array, it raises: only a dictionary has \<open>get\<close>.
\<close>

theorem force_attack_malformed_raises:
  "force_attack (JArr []) init_state = Inl AttributeError
   \<and> force_attack (JObj [(''mode'', JStr ''maybe'')]) forced_state =
       Inr (JObj [(''forced_attack'', JBool False)], init_state)"
  by (simp add: force_attack_def dict_get_def forced_state_def init_state_def)

end
